theory Spec2Isabelle
  imports Main "HOL-Library.Word"
begin

unbundle bit_operations_syntax

section \<open>The bit-search harness of HyperDex: \<open>src/bin/binary.cc\<close>\<close>

text \<open>
  The program loads \<open>numbers\<close> records whose key is a number and whose 32 secondary
  attributes are the bits of that number, pauses, searches for every number by its bits
  and reports the time the searches took. The development below embeds the body of the
  \<open>try\<close> block of \<open>main\<close> (lines 98 to 206) and its \<open>catch\<close> handlers.
\<close>

subsection \<open>Data\<close>

type_synonym u32 = "32 word"
type_synonym u64 = "64 word"

text \<open>
  Signed integers are words of the same width read in two's complement: \<open>sint\<close> gives the
  value, \<open><s\<close> is the signed order. An \<open>int\<close> is \<open>s32\<close>; \<open>time_t\<close> and \<open>long\<close> are \<open>s64\<close>
  (the LP64 data model of the 64-bit Linux the program is built for).
\<close>

type_synonym s32 = "32 word"
type_synonym s64 = "64 word"

text \<open>An \<open>e::buffer\<close> is a sequence of bytes.\<close>

type_synonym buffer = "char list"

text \<open>
  Modelled from the spec: the constructor \<open>e::buffer(const char* buf, size_t size)\<close> is
  declared in libe (\<open>e/buffer.h\<close>), which is not among the sources. It holds the first
  \<open>size\<close> bytes found at \<open>buf\<close>; the sentinels of the spec are "immutable constants" and
  "shared read-only byte buffers".
\<close>

definition e_buffer :: "char list \<Rightarrow> nat \<Rightarrow> buffer" where
  "e_buffer buf sz = take sz buf"

text \<open>Lines 101 and 102: \<open>e::buffer one("one", 3); e::buffer zero("zero", 3);\<close>\<close>

definition one_buffer :: buffer where
  "one_buffer = e_buffer ''one'' 3"

definition zero_buffer :: buffer where
  "zero_buffer = e_buffer ''zero'' 3"

text \<open>
  Modelled from the spec: \<open>key.pack() << num\<close> uses the packer of libe, which is not among
  the sources. The spec calls the key "the fixed-width binary encoding of n (a
  byte-accurate packing, not the decimal text)": the four bytes of the number, here in
  network order, the most significant byte first.
\<close>

definition pack_uint32 :: "u32 \<Rightarrow> buffer" where
  "pack_uint32 num =
     [char_of (unat (drop_bit 24 num)), char_of (unat (drop_bit 16 num)),
      char_of (unat (drop_bit 8 num)), char_of (unat num)]"

text \<open>
  The test \<open>num & (1 << i)\<close> of lines 114 and 158. The literal \<open>1\<close> is an \<open>int\<close>, so the
  shift is done on 32 signed bits (for \<open>i = 31\<close> it yields the sign bit); the usual
  arithmetic conversions then turn the \<open>int\<close> into the \<open>uint32_t\<close> with the same bits
  before the conjunction, and the condition holds when the result is not zero.
\<close>

definition shl_one :: "nat \<Rightarrow> s32" where
  "shl_one i = push_bit i 1"

definition bit_is_set :: "u32 \<Rightarrow> nat \<Rightarrow> bool" where
  "bit_is_set num i \<longleftrightarrow> (num AND ucast (shl_one i)) \<noteq> 0"

subsection \<open>The encoding loops\<close>

text \<open>
  Lines 110 to 122: \<open>for (size_t i = 0; i < 32; ++i)\<close>. Each turn appends an empty buffer
  to \<open>value\<close> and then assigns \<open>one\<close> or \<open>zero\<close> to \<open>value.back()\<close>.
\<close>

definition push_back :: "'a list \<Rightarrow> 'a \<Rightarrow> 'a list" where
  "push_back v x = v @ [x]"

definition set_back :: "'a list \<Rightarrow> 'a \<Rightarrow> 'a list" where
  "set_back v x = v[length v - 1 := x]"

function value_loop :: "u32 \<Rightarrow> nat \<Rightarrow> buffer list \<Rightarrow> buffer list" where
  "value_loop num i val =
     (if i < 32 then
        (let val = push_back val [] in
         if bit_is_set num i
         then value_loop num (i + 1) (set_back val one_buffer)
         else value_loop num (i + 1) (set_back val zero_buffer))
      else val)"
  by pat_completeness auto
termination
  by (relation "measure (\<lambda>(num, i, val). 32 - i)") auto

declare value_loop.simps [simp del]

text \<open>Lines 106 to 122: the key and the value of the record of \<open>num\<close>.\<close>

definition encode :: "u32 \<Rightarrow> buffer \<times> buffer list" where
  "encode num = (pack_uint32 num, value_loop num 0 [])"

text \<open>
  Modelled from the spec: \<open>hyperdex::search\<close> is declared in \<open>hyperdex/search.h\<close>, which is
  not among the sources. The spec describes it as "a vector of 32 constraints, each pinning
  attribute i to [a] sentinel value": \<open>search(n)\<close> has \<open>n\<close> unconstrained positions and
  \<open>set(i, v)\<close> pins position \<open>i\<close> to \<open>v\<close>. The program builds \<open>search(32)\<close> and calls \<open>set\<close>
  with \<open>i\<close> below 32 only, so no position out of range is ever set.
\<close>

type_synonym search = "buffer option list"

definition search_new :: "nat \<Rightarrow> search" where
  "search_new n = replicate n None"

definition search_set :: "search \<Rightarrow> nat \<Rightarrow> buffer \<Rightarrow> search" where
  "search_set terms i v = terms[i := Some v]"

text \<open>Lines 156 to 166: the loop that fills the search terms.\<close>

function terms_loop :: "u32 \<Rightarrow> nat \<Rightarrow> search \<Rightarrow> search" where
  "terms_loop num i terms =
     (if i < 32 then
        (if bit_is_set num i
         then terms_loop num (i + 1) (search_set terms i one_buffer)
         else terms_loop num (i + 1) (search_set terms i zero_buffer))
      else terms)"
  by pat_completeness auto
termination
  by (relation "measure (\<lambda>(num, i, terms). 32 - i)") auto

declare terms_loop.simps [simp del]

text \<open>Lines 152 to 166: the terms and the key of the search for \<open>num\<close>.\<close>

definition build_terms :: "u32 \<Rightarrow> search \<times> buffer" where
  "build_terms num = (terms_loop num 0 (search_new 32), pack_uint32 num)"

subsection \<open>The store, the clock and the output\<close>

text \<open>
  Modelled from the spec: \<open>hyperdex::status\<close> is declared in the client's headers, which
  are not among the sources. The \<open>switch\<close> of lines 124 to 140 names four values and has a
  \<open>default\<close>; the spec gives the write "a small closed set of status outcomes {Success,
  NotFound, Invalid, Error, Unrecognized}".
\<close>

datatype status = SUCCESS | NOTFOUND | INVALID | ERROR | UNRECOGNIZED

text \<open>The exceptions the handlers of lines 207 to 226 catch, each with its \<open>what()\<close>.\<close>

datatype exn = Po6_error string | Runtime_error string | Bad_alloc string | Std_exception string

text \<open>The \<open>timespec\<close> of \<open>clock_gettime\<close>: a \<open>time_t\<close> and a \<open>long\<close>.\<close>

record timespec =
  tv_sec :: s64
  tv_nsec :: s64

text \<open>
  Modelled from the spec: \<open>hyperdex::client::search_results\<close> is declared in
  \<open>hyperdex/client.h\<close>, which is not among the sources. The spec describes the result
  cursor as "a lazy, forward-only, single-pass sequence of matching keys returned by a
  search; may be empty, may be advanced": the keys still to come, \<open>valid()\<close> when there is
  a current one, \<open>key()\<close> the current one, \<open>next()\<close> dropping it. The program calls \<open>key()\<close>
  and \<open>next()\<close> on a valid cursor only (lines 174 to 181).
\<close>

type_synonym search_results = "buffer list"

definition sr_valid :: "search_results \<Rightarrow> bool" where
  "sr_valid s \<longleftrightarrow> s \<noteq> []"

definition sr_key :: "search_results \<Rightarrow> buffer" where
  "sr_key s = hd s"

definition sr_next :: "search_results \<Rightarrow> search_results" where
  "sr_next s = tl s"

text \<open>
  The store and the operating system are outside the program. They are a state \<open>'s\<close> the
  program cannot see and four operations on it: \<open>put\<close> and \<open>search\<close> of the client \<open>cl\<close>,
  which return or throw, \<open>clock_gettime\<close> and \<open>e::sleep_ms\<close>.
\<close>

record 's client =
  cl_put :: "string \<Rightarrow> buffer \<Rightarrow> buffer list \<Rightarrow> 's \<Rightarrow> (exn + status) \<times> 's"
  cl_search :: "string \<Rightarrow> search \<Rightarrow> 's \<Rightarrow> (exn + search_results) \<times> 's"
  clock_gettime :: "'s \<Rightarrow> timespec \<times> 's"
  sleep_ms :: "nat \<Rightarrow> nat \<Rightarrow> 's \<Rightarrow> 's"

text \<open>
  What is streamed into \<open>std::cerr\<close>: each operand of \<open><<\<close> is a piece, \<open>std::endl\<close> ends a
  line. \<open>Hex b\<close> stands for the text of \<open>b.hex()\<close>.
\<close>

datatype piece = Str string | U32 u32 | U64 u64 | Hex buffer

type_synonym line = "piece list"

text \<open>The calls the program makes to the outside, in the order it makes them.\<close>

datatype event =
    Ev_put string buffer "buffer list" "exn + status"
  | Ev_sleep_ms nat nat
  | Ev_clock_gettime timespec
  | Ev_search string search "exn + search_results"
  | Ev_next

record 's world =
  store :: 's
  err :: "line list"
  calls :: "event list"

definition log :: "line \<Rightarrow> 's world \<Rightarrow> 's world" where
  "log l w = w\<lparr>err := err w @ [l]\<rparr>"

definition put_call ::
  "'s client \<Rightarrow> string \<Rightarrow> buffer \<Rightarrow> buffer list \<Rightarrow> 's world \<Rightarrow> (exn + status) \<times> 's world" where
  "put_call cl space key val w =
     (let (r, s) = cl_put cl space key val (store w)
      in (r, w\<lparr>store := s, calls := calls w @ [Ev_put space key val r]\<rparr>))"

definition search_call ::
  "'s client \<Rightarrow> string \<Rightarrow> search \<Rightarrow> 's world \<Rightarrow> (exn + search_results) \<times> 's world" where
  "search_call cl space terms w =
     (let (r, s) = cl_search cl space terms (store w)
      in (r, w\<lparr>store := s, calls := calls w @ [Ev_search space terms r]\<rparr>))"

definition next_call :: "search_results \<Rightarrow> 's world \<Rightarrow> search_results \<times> 's world" where
  "next_call s w = (sr_next s, w\<lparr>calls := calls w @ [Ev_next]\<rparr>)"

definition clock_call :: "'s client \<Rightarrow> 's world \<Rightarrow> timespec \<times> 's world" where
  "clock_call cl w =
     (let (ts, s) = clock_gettime cl (store w)
      in (ts, w\<lparr>store := s, calls := calls w @ [Ev_clock_gettime ts]\<rparr>))"

definition sleep_call :: "'s client \<Rightarrow> nat \<Rightarrow> nat \<Rightarrow> 's world \<Rightarrow> 's world" where
  "sleep_call cl seconds milliseconds w =
     w\<lparr>store := sleep_ms cl seconds milliseconds (store w),
       calls := calls w @ [Ev_sleep_ms seconds milliseconds]\<rparr>"

subsection \<open>The loop counter\<close>

text \<open>
  Both outer loops count \<open>num\<close> up to \<open>numbers\<close> on \<open>uint32_t\<close>. Below \<open>numbers\<close> the
  increment does not wrap, so the distance to \<open>numbers\<close> shrinks with every turn.
\<close>

lemma counter_suc:
  fixes num numbers :: u32
  assumes "num < numbers"
  shows "unat (num + 1) = Suc (unat num)"
proof -
  from assms have below: "unat num < unat numbers"
    by (simp add: word_less_nat_alt)
  have "unat numbers < 2 ^ 32"
    using unsigned_less [of numbers] by simp
  with below have "unat num + unat (1 :: u32) < 2 ^ LENGTH(32)"
    by simp
  then have "unat (num + 1) = unat num + unat (1 :: u32)"
    by (simp only: unat_add_lem)
  then show ?thesis by simp
qed

lemma counter_measure:
  fixes num numbers :: u32
  assumes "num < numbers"
  shows "unat numbers - unat (num + 1) < unat numbers - unat num"
  using assms counter_suc [OF assms] by (simp add: word_less_nat_alt)

subsection \<open>The load phase\<close>

text \<open>Lines 124 to 140: the \<open>switch\<close> on the status of the put.\<close>

fun put_switch :: "status \<Rightarrow> 's world \<Rightarrow> 's world" where
  "put_switch SUCCESS w = w"
| "put_switch NOTFOUND w = log [Str ''Put returned NOTFOUND.''] w"
| "put_switch INVALID w = log [Str ''Put returned INVALID.''] w"
| "put_switch ERROR w = log [Str ''Put returned ERROR.''] w"
| "put_switch UNRECOGNIZED w = log [Str ''Put returned unknown status.''] w"

text \<open>
  Lines 104 to 141: \<open>for (uint32_t num = 0; num < numbers; ++num)\<close>. An exception thrown
  by \<open>put\<close> leaves the loop.
\<close>

function load_loop ::
  "'s client \<Rightarrow> string \<Rightarrow> u32 \<Rightarrow> u32 \<Rightarrow> 's world \<Rightarrow> (exn + unit) \<times> 's world" where
  "load_loop cl space numbers num w =
     (if num < numbers then
        (case encode num of (key, val) \<Rightarrow>
           (case put_call cl space key val w of
              (Inl e, w') \<Rightarrow> (Inl e, w')
            | (Inr st, w') \<Rightarrow> load_loop cl space numbers (num + 1) (put_switch st w')))
      else (Inr (), w))"
  by pat_completeness auto
termination
  by (relation "measure (\<lambda>(cl, space, numbers, num, w). unat numbers - unat num)")
    (simp_all add: counter_measure)

declare load_loop.simps [simp del]

subsection \<open>The search phase\<close>

text \<open>Lines 170 to 187: what is reported about the results of the search for \<open>num\<close>.\<close>

definition check_results :: "u32 \<Rightarrow> buffer \<Rightarrow> search_results \<Rightarrow> 's world \<Rightarrow> 's world" where
  "check_results num key s w =
     (if \<not> sr_valid s then log [Str ''Number '', U32 num, Str '' found nothing.''] w
      else
        (let w = (if key \<noteq> sr_key s
                  then log [Str ''Number '', U32 num, Str '' returned wrong key: '',
                            Hex key, Str '' '', Hex (sr_key s)] w
                  else w);
             (s, w) = next_call s w
         in if sr_valid s
            then log [Str ''Number '', U32 num, Str '' found more than one result.''] w
            else w))"

text \<open>
  Lines 150 to 188: \<open>for (uint32_t num = 0; num < numbers; ++num)\<close>. An exception thrown
  by \<open>search\<close> leaves the loop.
\<close>

function search_loop ::
  "'s client \<Rightarrow> string \<Rightarrow> u32 \<Rightarrow> u32 \<Rightarrow> 's world \<Rightarrow> (exn + unit) \<times> 's world" where
  "search_loop cl space numbers num w =
     (if num < numbers then
        (case build_terms num of (terms, key) \<Rightarrow>
           (case search_call cl space terms w of
              (Inl e, w') \<Rightarrow> (Inl e, w')
            | (Inr s, w') \<Rightarrow> search_loop cl space numbers (num + 1) (check_results num key s w')))
      else (Inr (), w))"
  by pat_completeness auto
termination
  by (relation "measure (\<lambda>(cl, space, numbers, num, w). unat numbers - unat num)")
    (simp_all add: counter_measure)

declare search_loop.simps [simp del]

subsection \<open>The elapsed time\<close>

text \<open>
  Line 193: \<open>(end.tv_nsec < start.tv_nsec) < 0\<close>. The inner comparison of two \<open>long\<close>s is a
  \<open>bool\<close>, promoted to the \<open>int\<close> 1 or 0 for the outer comparison with the \<open>int\<close> 0.
\<close>

definition borrow_guard :: "timespec \<Rightarrow> timespec \<Rightarrow> bool" where
  "borrow_guard ts_start ts_end \<longleftrightarrow>
     (if tv_nsec ts_end <s tv_nsec ts_start then (1 :: s32) else 0) <s 0"

text \<open>Lines 191 to 202: \<open>diff\<close>.\<close>

definition timespec_diff :: "timespec \<Rightarrow> timespec \<Rightarrow> timespec" where
  "timespec_diff ts_start ts_end =
     (if borrow_guard ts_start ts_end
      then \<lparr>tv_sec = tv_sec ts_end - tv_sec ts_start - 1,
            tv_nsec = 1000000000 + tv_nsec ts_end - tv_nsec ts_start\<rparr>
      else \<lparr>tv_sec = tv_sec ts_end - tv_sec ts_start,
            tv_nsec = tv_nsec ts_end - tv_nsec ts_start\<rparr>)"

text \<open>
  Line 204: \<open>uint64_t nanosecs = diff.tv_sec * 1000000000 + diff.tv_nsec\<close>. The sum is
  computed on 64 signed bits and converted to the \<open>uint64_t\<close> with the same bits.
\<close>

definition nanosecs :: "timespec \<Rightarrow> timespec \<Rightarrow> u64" where
  "nanosecs ts_start ts_end =
     (let diff = timespec_diff ts_start ts_end
      in tv_sec diff * 1000000000 + tv_nsec diff)"

subsection \<open>The whole run\<close>

text \<open>
  Lines 101 to 205, the body of the \<open>try\<close> block once the client is connected: the load
  loop, the pause, the clock, the search loop, the clock, the report.
\<close>

definition try_body :: "'s client \<Rightarrow> string \<Rightarrow> u32 \<Rightarrow> 's world \<Rightarrow> (exn + unit) \<times> 's world" where
  "try_body cl space numbers w =
     (case load_loop cl space numbers 0 w of
        (Inl e, w) \<Rightarrow> (Inl e, w)
      | (Inr u, w) \<Rightarrow>
          (let w = sleep_call cl 1 0 w;
               w = log [Str ''Starting searches.''] w;
               (ts_start, w) = clock_call cl w
           in case search_loop cl space numbers 0 w of
                (Inl e, w) \<Rightarrow> (Inl e, w)
              | (Inr u, w) \<Rightarrow>
                  (let (ts_end, w) = clock_call cl w
                   in (Inr (), log [Str ''test took '', U64 (nanosecs ts_start ts_end),
                                    Str '' nanoseconds for '', U32 numbers,
                                    Str '' searches''] w))))"

text \<open>
  Lines 207 to 228: the handlers and the exit code. The handlers end no line; what they
  write is kept as a line of its own.
\<close>

fun handler :: "exn \<Rightarrow> line" where
  "handler (Po6_error what) = [Str ''There was a system error:  '', Str what]"
| "handler (Runtime_error what) = [Str ''There was a runtime error:  '', Str what]"
| "handler (Bad_alloc what) = [Str ''There was a memory allocation error:  '', Str what]"
| "handler (Std_exception what) = [Str ''There was a generic error:  '', Str what]"

definition EXIT_SUCCESS :: int where
  "EXIT_SUCCESS = 0"

definition EXIT_FAILURE :: int where
  "EXIT_FAILURE = 1"

definition main_try :: "'s client \<Rightarrow> string \<Rightarrow> u32 \<Rightarrow> 's world \<Rightarrow> int \<times> 's world" where
  "main_try cl space numbers w =
     (case try_body cl space numbers w of
        (Inl e, w) \<Rightarrow> (EXIT_FAILURE, log (handler e) w)
      | (Inr u, w) \<Rightarrow> (EXIT_SUCCESS, w))"

subsection \<open>The decoder of the spec\<close>

text \<open>
  The program has no decoder. The spec's round-trip law speaks of "decoding the attribute
  vector back to an integer": reading at each index which of the two sentinels is there
  and putting the bits together, the attribute of index 0 being the lowest bit. A vector
  that is not 32 long, or holds anything else than a sentinel, decodes to nothing.
\<close>

fun decode_bits :: "buffer list \<Rightarrow> u32 option" where
  "decode_bits [] = Some 0"
| "decode_bits (a # as) =
     (case decode_bits as of
        None \<Rightarrow> None
      | Some m \<Rightarrow>
          if a = one_buffer then Some (1 + 2 * m)
          else if a = zero_buffer then Some (2 * m)
          else None)"

definition spec_decode :: "buffer list \<Rightarrow> u32 option" where
  "spec_decode attrs = (if length attrs = 32 then decode_bits attrs else None)"

subsection \<open>The instant of the spec\<close>

text \<open>
  The spec measures a timestamp as "a total nanosecond instant": its seconds and its
  nanoseconds read as signed numbers and added up, with no bound on the sum.
\<close>

definition spec_instant :: "timespec \<Rightarrow> int" where
  "spec_instant ts = sint (tv_sec ts) * 1000000000 + sint (tv_nsec ts)"

subsection \<open>Notions the statements use\<close>

text \<open>The identifiers from \<open>num\<close> up to, and without, \<open>numbers\<close>, in order.\<close>

definition spec_range :: "u32 \<Rightarrow> u32 \<Rightarrow> u32 list" where
  "spec_range num numbers = map of_nat [unat num..<unat numbers]"

text \<open>A client whose \<open>put\<close>, or whose \<open>search\<close>, returns and never throws.\<close>

definition put_returns :: "'s client \<Rightarrow> bool" where
  "put_returns cl \<longleftrightarrow> (\<forall>space key val s. \<exists>st s'. cl_put cl space key val s = (Inr st, s'))"

definition search_returns :: "'s client \<Rightarrow> bool" where
  "search_returns cl \<longleftrightarrow>
     (\<forall>space terms s. \<exists>res s'. cl_search cl space terms s = (Inr res, s'))"

text \<open>What the \<open>switch\<close> of lines 124 to 140 writes for a status.\<close>

definition put_lines :: "status \<Rightarrow> line list" where
  "put_lines st =
     (case st of
        SUCCESS \<Rightarrow> []
      | NOTFOUND \<Rightarrow> [[Str ''Put returned NOTFOUND.'']]
      | INVALID \<Rightarrow> [[Str ''Put returned INVALID.'']]
      | ERROR \<Rightarrow> [[Str ''Put returned ERROR.'']]
      | UNRECOGNIZED \<Rightarrow> [[Str ''Put returned unknown status.'']])"

text \<open>The calls of the search phase: a search, or the advance of its cursor.\<close>

fun is_query :: "event \<Rightarrow> bool" where
  "is_query (Ev_search space terms r) = True"
| "is_query Ev_next = True"
| "is_query e = False"

text \<open>
  The verification policy of the spec, on the keys a search returned: "If the cursor is
  empty (no first result), record not found for n. Otherwise compare the first result's
  key to the expected Key; if unequal, record key mismatch with both keys. Advance the
  cursor once more; if a second result exists, record multiple matches for n."
\<close>

fun spec_anomalies :: "u32 \<Rightarrow> buffer \<Rightarrow> buffer list \<Rightarrow> line list" where
  "spec_anomalies n key [] = [[Str ''Number '', U32 n, Str '' found nothing.'']]"
| "spec_anomalies n key (k # ks) =
     (if k \<noteq> key
      then [[Str ''Number '', U32 n, Str '' returned wrong key: '', Hex key, Str '' '', Hex k]]
      else [])
     @ (if ks \<noteq> []
        then [[Str ''Number '', U32 n, Str '' found more than one result.'']]
        else [])"

subsection \<open>A scripted store\<close>

text \<open>
  A store for concrete runs: its state counts the puts and the searches so far, the
  \<open>i\<close>-th put returns the \<open>i\<close>-th status of a script (\<open>SUCCESS\<close> beyond it), the \<open>j\<close>-th
  search the \<open>j\<close>-th result list (none beyond it), and the clock shows the number of
  searches so far as seconds.
\<close>

definition scripted :: "status list \<Rightarrow> search_results list \<Rightarrow> (nat \<times> nat) client" where
  "scripted sts rss =
     \<lparr>cl_put = (\<lambda>space key val (i, j).
                  (Inr (if i < length sts then sts ! i else SUCCESS), (i + 1, j))),
      cl_search = (\<lambda>space terms (i, j).
                  (Inr (if j < length rss then rss ! j else []), (i, j + 1))),
      clock_gettime = (\<lambda>(i, j). (\<lparr>tv_sec = of_nat j, tv_nsec = 0\<rparr>, (i, j))),
      sleep_ms = (\<lambda>seconds milliseconds s. s)\<rparr>"

definition world0 :: "(nat \<times> nat) world" where
  "world0 = \<lparr>store = (0, 0), err = [], calls = []\<rparr>"

section \<open>Properties\<close>

subsection \<open>The sentinels\<close>

text \<open>
  C10: both sentinels are three bytes long; \<open>one\<close> is "one" and \<open>zero\<close>, built from the
  literal "zero" with the length 3, is "zer"; the two are distinct.
\<close>

theorem sentinels_three_bytes:
  "one_buffer = ''one'' \<and> zero_buffer = ''zer'' \<and> length one_buffer = 3
   \<and> length zero_buffer = 3 \<and> one_buffer \<noteq> zero_buffer"
  by (simp add: one_buffer_def zero_buffer_def e_buffer_def)

lemma sentinels_differ: "one_buffer \<noteq> zero_buffer"
  by (simp add: one_buffer_def zero_buffer_def e_buffer_def)

subsection \<open>The bit encoder\<close>

text \<open>The test of the loops reads bit \<open>i\<close> of \<open>num\<close>.\<close>

lemma bit_is_set_iff: "bit_is_set num i \<longleftrightarrow> bit num i"
  unfolding bit_is_set_def shl_one_def
  by (simp add: and_exp_eq_0_iff_not_bit)

text \<open>Started at \<open>i\<close>, the loop appends the attributes of the indices from \<open>i\<close> on.\<close>

lemma value_loop_eq:
  "value_loop num i val =
     val @ map (\<lambda>j. if bit num j then one_buffer else zero_buffer) [i..<32]"
proof (induction num i val rule: value_loop.induct)
  case (1 num i val)
  show ?case
  proof (cases "i < 32")
    case True
    then have up: "[i..<32] = i # [i + 1..<32]" by (simp add: upt_conv_Cons)
    from True 1 show ?thesis
      by (subst value_loop.simps)
        (simp add: up push_back_def set_back_def Let_def bit_is_set_iff)
  next
    case False
    then show ?thesis by (subst value_loop.simps) simp
  qed
qed

lemma terms_loop_eq:
  "i \<le> 32 \<Longrightarrow> length terms = 32 \<Longrightarrow> terms_loop num i terms =
     take i terms @ map (\<lambda>j. Some (if bit num j then one_buffer else zero_buffer)) [i..<32]"
proof (induction num i terms rule: terms_loop.induct)
  case (1 num i terms)
  show ?case
  proof (cases "i < 32")
    case True
    then have up: "[i..<32] = i # [i + 1..<32]" by (simp add: upt_conv_Cons)
    from True 1 show ?thesis
      by (subst terms_loop.simps)
        (simp add: up search_set_def take_Suc_conv_app_nth upd_conv_take_nth_drop bit_is_set_iff)
  next
    case False
    with 1 show ?thesis by (subst terms_loop.simps) simp
  qed
qed

lemma encode_value:
  "snd (encode num) = map (\<lambda>j. if bit num j then one_buffer else zero_buffer) [0..<32]"
  by (simp add: encode_def value_loop_eq)

lemma encode_key: "fst (encode num) = pack_uint32 num"
  by (simp add: encode_def)

lemma value_length: "length (snd (encode num)) = 32"
  by (simp add: encode_value)

lemma build_terms_value:
  "fst (build_terms num)
     = map (\<lambda>j. Some (if bit num j then one_buffer else zero_buffer)) [0..<32]"
  by (simp add: build_terms_def terms_loop_eq search_new_def)

lemma build_terms_key: "snd (build_terms num) = pack_uint32 num"
  by (simp add: build_terms_def)

text \<open>
  C2: for every \<open>n\<close> the key is the packing of \<open>n\<close> and attribute \<open>i\<close>, for every \<open>i\<close> below
  32, is \<open>one\<close> when \<open>(n >> i) & 1\<close> is 1 and \<open>zero\<close> otherwise. The encoder is a total
  function of \<open>n\<close> alone, with no error among its results.
\<close>

theorem encode_bits:
  "fst (encode n) = pack_uint32 n
   \<and> (\<forall>i<32. snd (encode n) ! i
          = (if drop_bit i n AND 1 = 1 then one_buffer else zero_buffer))"
  by (simp add: encode_value bit_iff_and_drop_bit_eq_1) (simp add: encode_def)

theorem encode_bits_witness:
  "(2 :: nat) < 32 \<and> (1 :: nat) < 32
   \<and> snd (encode 5) ! 2 = ''one'' \<and> snd (encode 5) ! 1 = ''zer''
   \<and> fst (encode 5) = [CHR 0x00, CHR 0x00, CHR 0x00, CHR 0x05]"
proof -
  have "snd (encode 5) ! 2
          = (if drop_bit 2 (5 :: u32) AND 1 = 1 then one_buffer else zero_buffer)"
    and "snd (encode 5) ! 1
          = (if drop_bit 1 (5 :: u32) AND 1 = 1 then one_buffer else zero_buffer)"
    and "fst (encode 5) = pack_uint32 5"
    using encode_bits [of 5] by simp_all
  then show ?thesis
    by (simp add: one_buffer_def zero_buffer_def e_buffer_def pack_uint32_def char_of_def
        bit_simps drop_bit_eq_div)
qed

text \<open>C7: for every \<open>n\<close> the attribute vector is exactly 32 long.\<close>

theorem encode_length: "length (snd (encode n)) = 32"
  by (simp add: encode_value)

text \<open>The decoder, run on the attributes from index \<open>i\<close> on, yields \<open>num >> i\<close>.\<close>

lemma decode_bits_from:
  "i \<le> 32 \<Longrightarrow>
   decode_bits (map (\<lambda>j. if bit num j then one_buffer else zero_buffer) [i..<32])
     = Some (drop_bit i num)"
proof (induction "32 - i" arbitrary: i)
  case 0
  then have "i = 32" by simp
  then show ?case by simp
next
  case (Suc k)
  then have less: "i < 32" and k: "k = 32 - Suc i" by simp_all
  then have up: "[i..<32] = i # [Suc i..<32]" by (simp add: upt_conv_Cons)
  have IH: "decode_bits (map (\<lambda>j. if bit num j then one_buffer else zero_buffer) [Suc i..<32])
     = Some (drop_bit (Suc i) num)"
    using Suc.hyps(1) [of "Suc i"] less k by simp
  have split: "drop_bit i num = of_bool (bit num i) + 2 * drop_bit (Suc i) num"
  proof -
    have "drop_bit i num = drop_bit i num mod 2 + 2 * (drop_bit i num div 2)"
      by (simp only: mod_mult_div_eq)
    also have "drop_bit i num mod 2 = of_bool (bit num i)"
      by (simp add: mod_2_eq_odd bit_iff_odd_drop_bit)
    also have "drop_bit i num div 2 = drop_bit (Suc i) num"
      by (simp add: drop_bit_Suc drop_bit_half)
    finally show ?thesis .
  qed
  show ?case
    by (simp add: up IH split sentinels_differ sentinels_differ [symmetric])
qed

lemma spec_decode_encode: "spec_decode (snd (encode n)) = Some n"
  using decode_bits_from [of 0 n] by (simp add: spec_decode_def encode_value)

text \<open>
  C3: decoding the attribute vector of \<open>n\<close> gives \<open>n\<close> back, for every \<open>n\<close> of 32 bits, and
  the vectors of two different numbers differ at some index below 32.
\<close>

theorem decode_encode:
  "spec_decode (snd (encode n)) = Some n
   \<and> (n1 \<noteq> n2 \<longrightarrow> (\<exists>i<32. snd (encode n1) ! i \<noteq> snd (encode n2) ! i))"
proof (intro conjI impI)
  show "spec_decode (snd (encode n)) = Some n"
    by (rule spec_decode_encode)
next
  assume differ: "n1 \<noteq> n2"
  show "\<exists>i<32. snd (encode n1) ! i \<noteq> snd (encode n2) ! i"
  proof (rule ccontr)
    assume "\<not> ?thesis"
    then have "\<forall>i<32. snd (encode n1) ! i = snd (encode n2) ! i"
      by blast
    then have "snd (encode n1) = snd (encode n2)"
      by (simp add: list_eq_iff_nth_eq value_length)
    then have "spec_decode (snd (encode n1)) = spec_decode (snd (encode n2))"
      by simp
    with differ show False
      by (simp add: spec_decode_encode)
  qed
qed

theorem decode_encode_witness:
  "spec_decode (snd (encode 6)) = Some 6 \<and> (6 :: u32) \<noteq> 4
   \<and> (\<exists>i<32. snd (encode 6) ! i \<noteq> snd (encode 4) ! i)"
  using decode_encode [of 6 6 4] by simp

text \<open>
  C4: for every \<open>n\<close> the 32 search terms are the attribute vector of \<open>n\<close>: at each index
  below 32 the term pins the attribute to the sentinel the record holds there, and the
  key the results are compared with is the key of the record.
\<close>

theorem terms_match_value:
  "fst (build_terms n) = map Some (snd (encode n))
   \<and> snd (build_terms n) = fst (encode n)
   \<and> length (fst (build_terms n)) = 32
   \<and> (\<forall>i<32. fst (build_terms n) ! i = Some (snd (encode n) ! i)
             \<and> snd (encode n) ! i \<in> {one_buffer, zero_buffer})"
  by (simp add: build_terms_value encode_value) (simp add: build_terms_def encode_def)

theorem terms_match_value_witness:
  "(0 :: nat) < 32 \<and> fst (build_terms 5) ! 0 = Some (snd (encode 5) ! 0)
   \<and> snd (encode 5) ! 0 \<in> {one_buffer, zero_buffer}"
proof -
  have "\<forall>i<32. fst (build_terms 5) ! i = Some (snd (encode 5) ! i)
             \<and> snd (encode 5) ! i \<in> {one_buffer, zero_buffer}"
    using terms_match_value [of 5] by blast
  then show ?thesis by simp
qed

subsection \<open>The elapsed time\<close>

text \<open>A \<open>bool\<close> promoted to \<open>int\<close> is 0 or 1, never below 0.\<close>

lemma guard_false: "\<not> borrow_guard ts_start ts_end"
  by (simp add: borrow_guard_def word_sless_alt)

lemma nanosecs_eq:
  "nanosecs ts_start ts_end
     = (tv_sec ts_end - tv_sec ts_start) * 1000000000 + (tv_nsec ts_end - tv_nsec ts_start)"
  by (simp add: nanosecs_def timespec_diff_def guard_false)

text \<open>On 64 bits the reported number is the difference of the instants, wrapped.\<close>

lemma nanosecs_of_int:
  "nanosecs ts_start ts_end = word_of_int (spec_instant ts_end - spec_instant ts_start)"
proof -
  have "word_of_int (spec_instant ts_end - spec_instant ts_start)
      = (word_of_int (sint (tv_sec ts_end)) * 1000000000
          + word_of_int (sint (tv_nsec ts_end)))
        - (word_of_int (sint (tv_sec ts_start)) * 1000000000
          + word_of_int (sint (tv_nsec ts_start)) :: u64)"
    unfolding spec_instant_def
    by (simp only: of_int_diff of_int_add of_int_mult of_int_numeral)
  also have "\<dots> = nanosecs ts_start ts_end"
    by (simp add: nanosecs_eq algebra_simps)
  finally show ?thesis by simp
qed

text \<open>
  C1: the borrow branch should be taken exactly when \<open>end.tv_nsec < start.tv_nsec\<close>. At
  the spec's own example, start = (10 s, 500 ns) and end = (11 s, 200 ns), the nanoseconds
  of the end are the smaller ones and yet the guard of line 193 is false: the branch of
  lines 200 and 201 runs and \<open>diff\<close> is (1 s, -300 ns), with no borrow.
\<close>

theorem borrow_branch_not_taken:
  "tv_nsec \<lparr>tv_sec = 11, tv_nsec = 200\<rparr> <s tv_nsec \<lparr>tv_sec = 10, tv_nsec = 500\<rparr>
   \<and> \<not> borrow_guard \<lparr>tv_sec = 10, tv_nsec = 500\<rparr> \<lparr>tv_sec = 11, tv_nsec = 200\<rparr>
   \<and> timespec_diff \<lparr>tv_sec = 10, tv_nsec = 500\<rparr> \<lparr>tv_sec = 11, tv_nsec = 200\<rparr>
       = \<lparr>tv_sec = 1, tv_nsec = - 300\<rparr>
   \<and> sint (tv_nsec (timespec_diff \<lparr>tv_sec = 10, tv_nsec = 500\<rparr>
                                     \<lparr>tv_sec = 11, tv_nsec = 200\<rparr>)) = - 300"
  by (simp add: borrow_guard_def timespec_diff_def word_sless_alt)

text \<open>
  C9 as stated, for every pair of timestamps with the end not before the start, fails
  where the elapsed nanoseconds do not fit the \<open>uint64_t\<close>: from (0 s, 0 ns) to
  (18446744074 s, 0 ns) they are 18446744074000000000, and 290448384 is reported.
\<close>

theorem elapsed_wraps_counterexample:
  "spec_instant \<lparr>tv_sec = 0, tv_nsec = 0\<rparr> \<le> spec_instant \<lparr>tv_sec = 18446744074, tv_nsec = 0\<rparr>
   \<and> spec_instant \<lparr>tv_sec = 18446744074, tv_nsec = 0\<rparr> - spec_instant \<lparr>tv_sec = 0, tv_nsec = 0\<rparr>
       = 18446744074000000000
   \<and> uint (nanosecs \<lparr>tv_sec = 0, tv_nsec = 0\<rparr> \<lparr>tv_sec = 18446744074, tv_nsec = 0\<rparr>)
       = 290448384
   \<and> uint (nanosecs \<lparr>tv_sec = 0, tv_nsec = 0\<rparr> \<lparr>tv_sec = 18446744074, tv_nsec = 0\<rparr>)
       \<noteq> spec_instant \<lparr>tv_sec = 18446744074, tv_nsec = 0\<rparr>
          - spec_instant \<lparr>tv_sec = 0, tv_nsec = 0\<rparr>"
  by (simp add: spec_instant_def nanosecs_eq)

text \<open>
  C9, amended: the guard of the borrow branch is false for every pair of timestamps, so
  the other branch always runs; and for every pair whose end is not before its start and
  whose elapsed nanoseconds are below \<open>2 ^ 64\<close>, the reported number is the elapsed
  nanoseconds, and is not negative.
\<close>

theorem elapsed_without_borrow:
  "\<not> borrow_guard ts_start ts_end
   \<and> timespec_diff ts_start ts_end
       = \<lparr>tv_sec = tv_sec ts_end - tv_sec ts_start,
          tv_nsec = tv_nsec ts_end - tv_nsec ts_start\<rparr>
   \<and> (spec_instant ts_start \<le> spec_instant ts_end
        \<and> spec_instant ts_end - spec_instant ts_start < 2 ^ 64
      \<longrightarrow> uint (nanosecs ts_start ts_end) = spec_instant ts_end - spec_instant ts_start
          \<and> 0 \<le> uint (nanosecs ts_start ts_end))"
proof (intro conjI impI)
  show "\<not> borrow_guard ts_start ts_end"
    by (rule guard_false)
next
  show "timespec_diff ts_start ts_end
       = \<lparr>tv_sec = tv_sec ts_end - tv_sec ts_start,
          tv_nsec = tv_nsec ts_end - tv_nsec ts_start\<rparr>"
    by (simp add: timespec_diff_def guard_false)
next
  assume range: "spec_instant ts_start \<le> spec_instant ts_end
        \<and> spec_instant ts_end - spec_instant ts_start < 2 ^ 64"
  have "uint (nanosecs ts_start ts_end)
      = (spec_instant ts_end - spec_instant ts_start) mod 2 ^ LENGTH(64)"
    by (simp only: nanosecs_of_int uint_word_of_int)
  also from range have "\<dots> = spec_instant ts_end - spec_instant ts_start"
    by simp
  finally show "uint (nanosecs ts_start ts_end) = spec_instant ts_end - spec_instant ts_start" .
next
  show "0 \<le> uint (nanosecs ts_start ts_end)"
    by simp
qed

theorem elapsed_without_borrow_witness:
  "spec_instant \<lparr>tv_sec = 10, tv_nsec = 500\<rparr> \<le> spec_instant \<lparr>tv_sec = 11, tv_nsec = 200\<rparr>
   \<and> spec_instant \<lparr>tv_sec = 11, tv_nsec = 200\<rparr> - spec_instant \<lparr>tv_sec = 10, tv_nsec = 500\<rparr>
       < 2 ^ 64
   \<and> uint (nanosecs \<lparr>tv_sec = 10, tv_nsec = 500\<rparr> \<lparr>tv_sec = 11, tv_nsec = 200\<rparr>)
       = 999999700"
  using elapsed_without_borrow [of "\<lparr>tv_sec = 10, tv_nsec = 500\<rparr>"
      "\<lparr>tv_sec = 11, tv_nsec = 200\<rparr>"]
  by (simp add: spec_instant_def)

subsection \<open>The load loop\<close>

lemma spec_range_step:
  "num < numbers \<Longrightarrow> spec_range num numbers = num # spec_range (num + 1) numbers"
  by (simp add: spec_range_def counter_suc upt_conv_Cons word_less_nat_alt)

lemma spec_range_done: "\<not> num < numbers \<Longrightarrow> spec_range num numbers = []"
  by (simp add: spec_range_def word_less_nat_alt)

lemma spec_range_length: "length (spec_range 0 numbers) = unat numbers"
  by (simp add: spec_range_def)

lemma put_switch_eq: "put_switch st w = w\<lparr>err := err w @ put_lines st\<rparr>"
  by (cases st) (simp_all add: put_lines_def log_def)

lemma put_lines_case:
  "put_lines = (\<lambda>st. case st of
        SUCCESS \<Rightarrow> []
      | NOTFOUND \<Rightarrow> [[Str ''Put returned NOTFOUND.'']]
      | INVALID \<Rightarrow> [[Str ''Put returned INVALID.'']]
      | ERROR \<Rightarrow> [[Str ''Put returned ERROR.'']]
      | UNRECOGNIZED \<Rightarrow> [[Str ''Put returned unknown status.'']])"
  by (rule ext) (simp add: put_lines_def)

text \<open>
  When no put throws, the loop started at \<open>num\<close> ends normally, having made one put for
  each identifier from \<open>num\<close> on and written the lines of their statuses.
\<close>

lemma load_loop_returns:
  "put_returns cl \<Longrightarrow> \<exists>sts s'. length sts = length (spec_range num numbers)
     \<and> load_loop cl space numbers num w
         = (Inr (),
            \<lparr>store = s',
             err = err w @ concat (map put_lines sts),
             calls = calls w @ map2 (\<lambda>n st. Ev_put space (pack_uint32 n) (snd (encode n)) (Inr st))
                                   (spec_range num numbers) sts\<rparr>)"
proof (induction cl space numbers num w rule: load_loop.induct)
  case (1 cl space numbers num w)
  show ?case
  proof (cases "num < numbers")
    case False
    then have "load_loop cl space numbers num w = (Inr (), w)"
      by (subst load_loop.simps) simp
    with False show ?thesis
      by (simp add: spec_range_done) (rule exI [of _ "store w"], simp)
  next
    case True
    obtain st s1
      where put: "cl_put cl space (pack_uint32 num) (snd (encode num)) (store w) = (Inr st, s1)"
      using "1.prems" unfolding put_returns_def by blast
    define w1 where
      "w1 = w\<lparr>store := s1,
              calls := calls w @ [Ev_put space (pack_uint32 num) (snd (encode num)) (Inr st)]\<rparr>"
    have call: "put_call cl space (pack_uint32 num) (snd (encode num)) w = (Inr st, w1)"
      by (simp add: put_call_def put w1_def)
    have enc: "encode num = (pack_uint32 num, snd (encode num))"
      by (simp add: encode_def)
    from "1.IH" [OF True enc [symmetric] call [symmetric] refl "1.prems"]
    obtain sts s' where len: "length sts = length (spec_range (num + 1) numbers)"
      and rest: "load_loop cl space numbers (num + 1) (put_switch st w1)
         = (Inr (),
            \<lparr>store = s',
             err = err (put_switch st w1) @ concat (map put_lines sts),
             calls = calls (put_switch st w1)
                @ map2 (\<lambda>n st. Ev_put space (pack_uint32 n) (snd (encode n)) (Inr st))
                     (spec_range (num + 1) numbers) sts\<rparr>)"
      by blast
    have unfold: "load_loop cl space numbers num w
        = load_loop cl space numbers (num + 1) (put_switch st w1)"
      using True enc call by (subst load_loop.simps) (simp add: encode_def)
    show ?thesis
      apply (rule exI [of _ "st # sts"])
      apply (rule exI [of _ s'])
      apply (simp only: unfold rest)
      apply (simp add: spec_range_step [OF True] len put_switch_eq w1_def)
      done
  qed
qed

text \<open>
  Whatever the store does, the calls of the loop are puts for the identifiers from \<open>num\<close>
  on, in order, up to the one that threw if one did.
\<close>

lemma load_loop_trace:
  "load_loop cl space numbers num w = (r, w') \<Longrightarrow>
   \<exists>rs. length rs \<le> length (spec_range num numbers)
     \<and> (r = Inr () \<longrightarrow> length rs = length (spec_range num numbers))
     \<and> calls w' = calls w @ map2 (\<lambda>n r. Ev_put space (pack_uint32 n) (snd (encode n)) r)
                                (spec_range num numbers) rs"
proof (induction cl space numbers num w rule: load_loop.induct)
  case (1 cl space numbers num w)
  show ?case
  proof (cases "num < numbers")
    case False
    then have "load_loop cl space numbers num w = (Inr (), w)"
      by (subst load_loop.simps) simp
    with False "1.prems" show ?thesis
      by (simp add: spec_range_done)
  next
    case True
    obtain res w1 where call: "put_call cl space (pack_uint32 num) (snd (encode num)) w = (res, w1)"
      by (cases "put_call cl space (pack_uint32 num) (snd (encode num)) w")
    then have calls1: "calls w1 = calls w @ [Ev_put space (pack_uint32 num) (snd (encode num)) res]"
      by (auto simp add: put_call_def split_beta)
    have enc: "encode num = (pack_uint32 num, snd (encode num))"
      by (simp add: encode_def)
    show ?thesis
    proof (cases res)
      case (Inl e)
      with True call have "load_loop cl space numbers num w = (Inl e, w1)"
        by (subst load_loop.simps) (simp add: encode_def)
      with "1.prems" have "r = Inl e" and "w' = w1"
        by simp_all
      with calls1 Inl show ?thesis
        by (intro exI [of _ "[Inl e]"]) (simp add: spec_range_step [OF True])
    next
      case (Inr st)
      with True call have unfold: "load_loop cl space numbers num w
          = load_loop cl space numbers (num + 1) (put_switch st w1)"
        by (subst load_loop.simps) (simp add: encode_def)
      from call Inr have call': "(Inr st, w1) = put_call cl space (pack_uint32 num) (snd (encode num)) w"
        by simp
      from "1.prems" unfold
      have "load_loop cl space numbers (num + 1) (put_switch st w1) = (r, w')"
        by simp
      from "1.IH" [OF True enc [symmetric] call' refl this]
      obtain rs where len: "length rs \<le> length (spec_range (num + 1) numbers)"
        and full: "r = Inr () \<longrightarrow> length rs = length (spec_range (num + 1) numbers)"
        and tr: "calls w' = calls (put_switch st w1)
            @ map2 (\<lambda>n r. Ev_put space (pack_uint32 n) (snd (encode n)) r)
                (spec_range (num + 1) numbers) rs"
        by blast
      from len full tr calls1 Inr show ?thesis
        by (intro exI [of _ "Inr st # rs"])
          (simp add: spec_range_step [OF True] put_switch_eq)
    qed
  qed
qed

text \<open>
  C6 as stated has every status other than \<open>SUCCESS\<close> logged "including which n". The
  messages of lines 129 to 138 name the status and not the number: with two records, an
  \<open>INVALID\<close> for number 0 alone and an \<open>INVALID\<close> for number 1 alone leave the same output.
\<close>

theorem load_log_omits_number_counterexample:
  "err (snd (load_loop (scripted [INVALID, SUCCESS] []) ''space'' 2 0 world0))
     = [[Str ''Put returned INVALID.'']]
   \<and> err (snd (load_loop (scripted [SUCCESS, INVALID] []) ''space'' 2 0 world0))
     = [[Str ''Put returned INVALID.'']]"
  by (simp add: load_loop.simps put_call_def scripted_def world0_def encode_def log_def)

text \<open>
  C6, amended: when no put throws, the load loop makes exactly one put for every \<open>n\<close> below
  \<open>numbers\<close>, in order, with the key and the value of \<open>n\<close>; a \<open>SUCCESS\<close> writes nothing and
  every other status writes one line that names the status (and not \<open>n\<close>); no status ends
  the loop or repeats a put, and the loop ends normally.
\<close>

theorem load_attempts_every_write:
  assumes "put_returns cl"
  shows "\<exists>sts w'. load_loop cl space numbers 0 w = (Inr (), w')
     \<and> length sts = unat numbers
     \<and> calls w' = calls w @ map2 (\<lambda>n st. Ev_put space (fst (encode n)) (snd (encode n)) (Inr st))
                                (spec_range 0 numbers) sts
     \<and> err w' = err w @ concat (map (\<lambda>st. case st of
                    SUCCESS \<Rightarrow> []
                  | NOTFOUND \<Rightarrow> [[Str ''Put returned NOTFOUND.'']]
                  | INVALID \<Rightarrow> [[Str ''Put returned INVALID.'']]
                  | ERROR \<Rightarrow> [[Str ''Put returned ERROR.'']]
                  | UNRECOGNIZED \<Rightarrow> [[Str ''Put returned unknown status.'']]) sts)"
proof -
  from load_loop_returns [OF assms, of 0 numbers space w]
  obtain sts s' where len: "length sts = length (spec_range 0 numbers)"
    and run: "load_loop cl space numbers 0 w
         = (Inr (),
            \<lparr>store = s',
             err = err w @ concat (map put_lines sts),
             calls = calls w @ map2 (\<lambda>n st. Ev_put space (pack_uint32 n) (snd (encode n)) (Inr st))
                                   (spec_range 0 numbers) sts\<rparr>)"
    by blast
  show ?thesis
    apply (rule exI [of _ sts])
    apply (simp only: run)
    apply (simp add: len spec_range_length encode_key put_lines_case)
    done
qed

theorem load_attempts_every_write_witness:
  "put_returns (scripted [SUCCESS, INVALID] [])
   \<and> (\<exists>sts w'. load_loop (scripted [SUCCESS, INVALID] []) ''space'' 2 0 world0 = (Inr (), w')
     \<and> length sts = unat (2 :: u32)
     \<and> calls w' = calls world0
          @ map2 (\<lambda>n st. Ev_put ''space'' (fst (encode n)) (snd (encode n)) (Inr st))
              (spec_range 0 2) sts
     \<and> err w' = err world0 @ concat (map (\<lambda>st. case st of
                    SUCCESS \<Rightarrow> []
                  | NOTFOUND \<Rightarrow> [[Str ''Put returned NOTFOUND.'']]
                  | INVALID \<Rightarrow> [[Str ''Put returned INVALID.'']]
                  | ERROR \<Rightarrow> [[Str ''Put returned ERROR.'']]
                  | UNRECOGNIZED \<Rightarrow> [[Str ''Put returned unknown status.'']]) sts))
   \<and> load_loop (scripted [SUCCESS, INVALID] []) ''space'' 2 0 world0
       = (Inr (),
          \<lparr>store = (2, 0),
           err = [[Str ''Put returned INVALID.'']],
           calls = [Ev_put ''space'' (fst (encode 0)) (snd (encode 0)) (Inr SUCCESS),
                    Ev_put ''space'' (fst (encode 1)) (snd (encode 1)) (Inr INVALID)]\<rparr>)"
proof -
  have returns: "put_returns (scripted [SUCCESS, INVALID] [])"
    by (simp add: put_returns_def scripted_def)
  have direct: "load_loop (scripted [SUCCESS, INVALID] []) ''space'' 2 0 world0
       = (Inr (),
          \<lparr>store = (2, 0),
           err = [[Str ''Put returned INVALID.'']],
           calls = [Ev_put ''space'' (fst (encode 0)) (snd (encode 0)) (Inr SUCCESS),
                    Ev_put ''space'' (fst (encode 1)) (snd (encode 1)) (Inr INVALID)]\<rparr>)"
    by (simp add: load_loop.simps put_call_def scripted_def world0_def case_prod_beta log_def)
  from returns direct load_attempts_every_write [OF returns, of "''space''" 2 world0]
  show ?thesis by simp
qed

subsection \<open>The search loop\<close>

lemma check_results_eq:
  "check_results num key s w
     = w\<lparr>err := err w @ spec_anomalies num key s,
         calls := calls w @ (if s = [] then [] else [Ev_next])\<rparr>"
  by (cases s)
    (simp_all add: check_results_def sr_valid_def sr_key_def sr_next_def next_call_def log_def)

lemma search_call_calls:
  "search_call cl space terms w = (res, w1) \<Longrightarrow>
   calls w1 = calls w @ [Ev_search space terms res] \<and> err w1 = err w"
  by (auto simp add: search_call_def split_beta)

text \<open>
  When no search throws, the loop started at \<open>num\<close> ends normally, having made one search
  for each identifier from \<open>num\<close> on, each followed by one advance of the cursor unless it
  was empty, and written what the policy of the spec records.
\<close>

lemma search_loop_returns:
  "search_returns cl \<Longrightarrow> \<exists>rs s'. length rs = length (spec_range num numbers)
     \<and> search_loop cl space numbers num w
         = (Inr (),
            \<lparr>store = s',
             err = err w @ concat (map2 (\<lambda>n res. spec_anomalies n (pack_uint32 n) res)
                                     (spec_range num numbers) rs),
             calls = calls w @ concat (map2 (\<lambda>n res. Ev_search space (fst (build_terms n)) (Inr res)
                                                # (if res = [] then [] else [Ev_next]))
                                     (spec_range num numbers) rs)\<rparr>)"
proof (induction cl space numbers num w rule: search_loop.induct)
  case (1 cl space numbers num w)
  show ?case
  proof (cases "num < numbers")
    case False
    then have "search_loop cl space numbers num w = (Inr (), w)"
      by (subst search_loop.simps) simp
    with False show ?thesis
      by (simp add: spec_range_done) (rule exI [of _ "store w"], simp)
  next
    case True
    define tm where "tm = fst (build_terms num)"
    have bt: "build_terms num = (tm, pack_uint32 num)"
      by (simp add: tm_def build_terms_def)
    obtain res s1 where srch: "cl_search cl space tm (store w) = (Inr res, s1)"
      using "1.prems" unfolding search_returns_def by blast
    define w1 where "w1 = w\<lparr>store := s1, calls := calls w @ [Ev_search space tm (Inr res)]\<rparr>"
    define w2 where "w2 = check_results num (pack_uint32 num) res w1"
    have call: "search_call cl space tm w = (Inr res, w1)"
      by (simp add: search_call_def srch w1_def)
    from "1.IH" [OF True bt [symmetric] call [symmetric] refl "1.prems", folded w2_def]
    obtain rs s' where len: "length rs = length (spec_range (num + 1) numbers)"
      and rest: "search_loop cl space numbers (num + 1) w2
         = (Inr (),
            \<lparr>store = s',
             err = err w2 @ concat (map2 (\<lambda>n res. spec_anomalies n (pack_uint32 n) res)
                                     (spec_range (num + 1) numbers) rs),
             calls = calls w2 @ concat (map2 (\<lambda>n res. Ev_search space (fst (build_terms n)) (Inr res)
                                                # (if res = [] then [] else [Ev_next]))
                                     (spec_range (num + 1) numbers) rs)\<rparr>)"
      by blast
    have unfold: "search_loop cl space numbers num w = search_loop cl space numbers (num + 1) w2"
      using True by (subst search_loop.simps) (simp add: bt call w2_def)
    show ?thesis
      apply (rule exI [of _ "res # rs"])
      apply (rule exI [of _ s'])
      apply (simp only: unfold rest)
      apply (simp add: spec_range_step [OF True] len w2_def check_results_eq w1_def tm_def)
      done
  qed
qed

text \<open>Whatever the store does, the calls of the loop are searches and advances.\<close>

lemma search_loop_trace:
  "search_loop cl space numbers num w = (r, w') \<Longrightarrow>
   \<exists>qs. calls w' = calls w @ qs \<and> list_all is_query qs"
proof (induction cl space numbers num w rule: search_loop.induct)
  case (1 cl space numbers num w)
  show ?case
  proof (cases "num < numbers")
    case False
    then have "search_loop cl space numbers num w = (Inr (), w)"
      by (subst search_loop.simps) simp
    with "1.prems" show ?thesis
      by simp
  next
    case True
    define tm where "tm = fst (build_terms num)"
    have bt: "build_terms num = (tm, pack_uint32 num)"
      by (simp add: tm_def build_terms_def)
    obtain res w1 where call: "search_call cl space tm w = (res, w1)"
      by (cases "search_call cl space tm w")
    note calls1 = search_call_calls [OF call, THEN conjunct1]
    show ?thesis
    proof (cases res)
      case (Inl e)
      with True have "search_loop cl space numbers num w = (Inl e, w1)"
        by (subst search_loop.simps) (simp add: bt call)
      with "1.prems" have "w' = w1"
        by simp
      with calls1 show ?thesis
        by simp
    next
      case (Inr sr)
      define w2 where "w2 = check_results num (pack_uint32 num) sr w1"
      from Inr True have unfold: "search_loop cl space numbers num w
          = search_loop cl space numbers (num + 1) w2"
        by (subst search_loop.simps) (simp add: bt call w2_def)
      from call Inr have call': "(Inr sr, w1) = search_call cl space tm w"
        by simp
      from "1.prems" unfold have "search_loop cl space numbers (num + 1) w2 = (r, w')"
        by simp
      from "1.IH" [OF True bt [symmetric] call' refl, folded w2_def, OF this]
      obtain qs where tr: "calls w' = calls w2 @ qs" and qs: "list_all is_query qs"
        by blast
      from tr qs calls1 show ?thesis
        by (simp add: w2_def check_results_eq)
    qed
  qed
qed

text \<open>
  C5: when no search throws, the search loop makes exactly one search for every \<open>n\<close> below
  \<open>numbers\<close>, in order and with the terms of \<open>n\<close>, and reports on its results by the policy
  of the spec: on an empty cursor "found nothing" for \<open>n\<close> and nothing more; otherwise
  "returned wrong key" with both keys if the first key is not the key of \<open>n\<close>, then exactly
  one advance of the cursor, then "found more than one result" for \<open>n\<close> if a second result
  is there. No anomaly ends the loop or repeats a search, and the loop ends normally.
\<close>

theorem verifier_policy:
  assumes "search_returns cl"
  shows "\<exists>rs w'. search_loop cl space numbers 0 w = (Inr (), w')
     \<and> length rs = unat numbers
     \<and> calls w' = calls w
          @ concat (map2 (\<lambda>n res. Ev_search space (map Some (snd (encode n))) (Inr res)
                                    # (if res = [] then [] else [Ev_next]))
                      (spec_range 0 numbers) rs)
     \<and> err w' = err w
          @ concat (map2 (\<lambda>n res. spec_anomalies n (fst (encode n)) res)
                      (spec_range 0 numbers) rs)"
proof -
  from search_loop_returns [OF assms, of 0 numbers space w]
  obtain rs s' where len: "length rs = length (spec_range 0 numbers)"
    and run: "search_loop cl space numbers 0 w
         = (Inr (),
            \<lparr>store = s',
             err = err w @ concat (map2 (\<lambda>n res. spec_anomalies n (pack_uint32 n) res)
                                     (spec_range 0 numbers) rs),
             calls = calls w @ concat (map2 (\<lambda>n res. Ev_search space (fst (build_terms n)) (Inr res)
                                                # (if res = [] then [] else [Ev_next]))
                                     (spec_range 0 numbers) rs)\<rparr>)"
    by blast
  have terms: "fst (build_terms n) = map Some (snd (encode n))" for n
    by (simp add: build_terms_value encode_value)
  show ?thesis
    apply (rule exI [of _ rs])
    apply (simp only: run)
    apply (simp add: len spec_range_length encode_key terms)
    done
qed

theorem verifier_policy_witness:
  "search_returns (scripted [] [[], [''xxxx''], [fst (encode 2), fst (encode 2)]])
   \<and> (\<exists>rs w'. search_loop (scripted [] [[], [''xxxx''], [fst (encode 2), fst (encode 2)]])
                  ''space'' 4 0 world0 = (Inr (), w')
     \<and> length rs = unat (4 :: u32)
     \<and> calls w' = calls world0
          @ concat (map2 (\<lambda>n res. Ev_search ''space'' (map Some (snd (encode n))) (Inr res)
                                    # (if res = [] then [] else [Ev_next]))
                      (spec_range 0 4) rs)
     \<and> err w' = err world0
          @ concat (map2 (\<lambda>n res. spec_anomalies n (fst (encode n)) res)
                      (spec_range 0 4) rs))
   \<and> err (snd (search_loop (scripted [] [[], [''xxxx''], [fst (encode 2), fst (encode 2)]])
                ''space'' 4 0 world0))
       = [[Str ''Number '', U32 0, Str '' found nothing.''],
          [Str ''Number '', U32 1, Str '' returned wrong key: '',
           Hex [CHR 0x00, CHR 0x00, CHR 0x00, CHR 0x01], Str '' '', Hex ''xxxx''],
          [Str ''Number '', U32 2, Str '' found more than one result.''],
          [Str ''Number '', U32 3, Str '' found nothing.'']]"
proof -
  let ?cl = "scripted [] [[], [''xxxx''], [fst (encode 2), fst (encode 2)]]"
  have returns: "search_returns ?cl"
    by (simp add: search_returns_def scripted_def)
  have direct: "err (snd (search_loop ?cl ''space'' 4 0 world0))
       = [[Str ''Number '', U32 0, Str '' found nothing.''],
          [Str ''Number '', U32 1, Str '' returned wrong key: '',
           Hex [CHR 0x00, CHR 0x00, CHR 0x00, CHR 0x01], Str '' '', Hex ''xxxx''],
          [Str ''Number '', U32 2, Str '' found more than one result.''],
          [Str ''Number '', U32 3, Str '' found nothing.'']]"
    by (simp add: search_loop.simps search_call_def scripted_def world0_def build_terms_def
        encode_def check_results_def sr_valid_def sr_key_def sr_next_def next_call_def log_def
        pack_uint32_def char_of_def bit_simps)
  from returns direct verifier_policy [OF returns, of "''space''" 4 world0]
  show ?thesis by simp
qed

subsection \<open>The order of the phases\<close>

lemma clock_call_calls:
  "clock_call cl w = (ts, w1) \<Longrightarrow> calls w1 = calls w @ [Ev_clock_gettime ts]"
  by (auto simp add: clock_call_def split_beta)

text \<open>
  C8: in every run the calls to the outside are, in this order: puts for the identifiers
  from 0 on; then, only if all \<open>numbers\<close> puts have returned, the pause \<open>e::sleep_ms(1, 0)\<close>
  of one second and no milliseconds, the first reading of the clock, searches and advances
  of cursors, and the second reading of the clock. So every put comes before the pause,
  the pause before the first reading of the clock and before every search, and no put
  comes after a search.
\<close>

theorem phases_in_order:
  assumes "try_body cl space numbers w = (r, w')"
  shows "\<exists>rs rest. length rs \<le> unat numbers
     \<and> calls w' = calls w
          @ map2 (\<lambda>n res. Ev_put space (fst (encode n)) (snd (encode n)) res)
              (spec_range 0 numbers) rs
          @ rest
     \<and> (rest = []
        \<or> length rs = unat numbers
          \<and> (\<exists>ts qs fin. rest = Ev_sleep_ms 1 0 # Ev_clock_gettime ts # qs @ fin
                \<and> list_all is_query qs
                \<and> (fin = [] \<or> (\<exists>ts'. fin = [Ev_clock_gettime ts']))))"
proof -
  obtain r1 w1 where load: "load_loop cl space numbers 0 w = (r1, w1)"
    by (cases "load_loop cl space numbers 0 w")
  from load_loop_trace [OF load]
  obtain rs where len: "length rs \<le> unat numbers"
    and full: "r1 = Inr () \<longrightarrow> length rs = unat numbers"
    and puts: "calls w1 = calls w
        @ map2 (\<lambda>n res. Ev_put space (fst (encode n)) (snd (encode n)) res)
            (spec_range 0 numbers) rs"
    by (auto simp add: spec_range_length encode_key)
  show ?thesis
  proof (cases r1)
    case (Inl e)
    with assms load have "w' = w1"
      by (simp add: try_body_def)
    with len puts show ?thesis
      by (intro exI [of _ rs] exI [of _ "[]"]) simp
  next
    case (Inr u)
    define w2 where "w2 = log [Str ''Starting searches.''] (sleep_call cl 1 0 w1)"
    obtain ts w3 where clock: "clock_call cl w2 = (ts, w3)"
      by (cases "clock_call cl w2")
    obtain r2 w4 where srch: "search_loop cl space numbers 0 w3 = (r2, w4)"
      by (cases "search_loop cl space numbers 0 w3")
    from search_loop_trace [OF srch]
    obtain qs where queries: "calls w4 = calls w3 @ qs" and qs: "list_all is_query qs"
      by blast
    have calls3: "calls w3 = calls w1 @ [Ev_sleep_ms 1 0, Ev_clock_gettime ts]"
      using clock_call_calls [OF clock] by (simp add: w2_def log_def sleep_call_def)
    obtain ts' w5 where clock': "clock_call cl w4 = (ts', w5)"
      by (cases "clock_call cl w4")
    have "\<exists>fin. calls w' = calls w4 @ fin \<and> (fin = [] \<or> (\<exists>ts'. fin = [Ev_clock_gettime ts']))"
    proof (cases r2)
      case (Inl e)
      with assms load Inr clock srch have "w' = w4"
        by (simp add: try_body_def w2_def Let_def)
      then show ?thesis by simp
    next
      case (Inr u')
      with assms load \<open>r1 = Inr u\<close> clock srch clock'
      have "calls w' = calls w5"
        by (auto simp add: try_body_def w2_def Let_def log_def)
      with clock_call_calls [OF clock'] show ?thesis
        by simp
    qed
    then obtain fin where fin: "calls w' = calls w4 @ fin"
      and shape: "fin = [] \<or> (\<exists>ts'. fin = [Ev_clock_gettime ts'])"
      by blast
    from Inr full have all: "length rs = unat numbers"
      by simp
    have "\<exists>ts qs' fin'. Ev_sleep_ms 1 0 # Ev_clock_gettime ts # qs @ fin
          = Ev_sleep_ms 1 0 # Ev_clock_gettime ts # qs' @ fin'
        \<and> list_all is_query qs'
        \<and> (fin' = [] \<or> (\<exists>ts'. fin' = [Ev_clock_gettime ts']))"
      using qs shape by blast
    with len all show ?thesis
      by (intro exI [of _ rs] exI [of _ "Ev_sleep_ms 1 0 # Ev_clock_gettime ts # qs @ fin"])
        (simp add: fin queries calls3 puts)
  qed
qed

theorem phases_in_order_witness:
  "try_body (scripted [] [[fst (encode 0)]]) ''space'' 1 world0
     = (fst (try_body (scripted [] [[fst (encode 0)]]) ''space'' 1 world0),
        snd (try_body (scripted [] [[fst (encode 0)]]) ''space'' 1 world0))
   \<and> (\<exists>rs rest. length rs \<le> unat (1 :: u32)
     \<and> calls (snd (try_body (scripted [] [[fst (encode 0)]]) ''space'' 1 world0)) = calls world0
          @ map2 (\<lambda>n res. Ev_put ''space'' (fst (encode n)) (snd (encode n)) res)
              (spec_range 0 1) rs
          @ rest
     \<and> (rest = []
        \<or> length rs = unat (1 :: u32)
          \<and> (\<exists>ts qs fin. rest = Ev_sleep_ms 1 0 # Ev_clock_gettime ts # qs @ fin
                \<and> list_all is_query qs
                \<and> (fin = [] \<or> (\<exists>ts'. fin = [Ev_clock_gettime ts'])))))
   \<and> calls (snd (try_body (scripted [] [[fst (encode 0)]]) ''space'' 1 world0))
       = [Ev_put ''space'' (fst (encode 0)) (snd (encode 0)) (Inr SUCCESS),
          Ev_sleep_ms 1 0,
          Ev_clock_gettime \<lparr>tv_sec = 0, tv_nsec = 0\<rparr>,
          Ev_search ''space'' (fst (build_terms 0)) (Inr [fst (encode 0)]),
          Ev_next,
          Ev_clock_gettime \<lparr>tv_sec = 1, tv_nsec = 0\<rparr>]"
proof -
  let ?run = "try_body (scripted [] [[fst (encode 0)]]) ''space'' 1 world0"
  have run: "?run = (fst ?run, snd ?run)"
    by simp
  have direct: "calls (snd ?run)
       = [Ev_put ''space'' (fst (encode 0)) (snd (encode 0)) (Inr SUCCESS),
          Ev_sleep_ms 1 0,
          Ev_clock_gettime \<lparr>tv_sec = 0, tv_nsec = 0\<rparr>,
          Ev_search ''space'' (fst (build_terms 0)) (Inr [fst (encode 0)]),
          Ev_next,
          Ev_clock_gettime \<lparr>tv_sec = 1, tv_nsec = 0\<rparr>]"
    by (simp add: try_body_def load_loop.simps search_loop.simps put_call_def search_call_def
        clock_call_def sleep_call_def scripted_def world0_def case_prod_beta
        check_results_def sr_valid_def sr_key_def sr_next_def next_call_def log_def Let_def)
  from phases_in_order [OF run] direct show ?thesis
    by simp
qed

subsection \<open>The exit code\<close>

text \<open>
  Statuses and search anomalies are written out and otherwise ignored: when no put and
  no search throws, the run ends with \<open>EXIT_SUCCESS\<close>.
\<close>

lemma anomalies_not_fatal:
  assumes "put_returns cl" and "search_returns cl"
  shows "fst (main_try cl space numbers w) = EXIT_SUCCESS"
proof -
  from load_loop_returns [OF assms(1), of 0 numbers space w]
  obtain w1 where load: "load_loop cl space numbers 0 w = (Inr (), w1)"
    by blast
  define w2 where "w2 = log [Str ''Starting searches.''] (sleep_call cl 1 0 w1)"
  obtain ts w3 where clock: "clock_call cl w2 = (ts, w3)"
    by (cases "clock_call cl w2")
  from search_loop_returns [OF assms(2), of 0 numbers space w3]
  obtain w4 where srch: "search_loop cl space numbers 0 w3 = (Inr (), w4)"
    by blast
  show ?thesis
    by (simp add: main_try_def try_body_def load clock [unfolded w2_def] srch Let_def
        case_prod_beta del: One_nat_def)
qed

end
